theory Spec2Isabelle
  imports Main "HOL-Library.Word" "HOL-Library.Sublist"
begin

section \<open>JavaScript values used by the background script\<close>

text \<open>
  A JavaScript string is a sequence of 16-bit code units. Message fields arrive as JSON
  values; the background script only ever asks four things of such a value: whether it is
  nullish (\<open>??\<close>), whether it is truthy (\<open>||\<close>, \<open>!!\<close>), what \<open>String(v)\<close>
  renders, and whether it is strictly equal to a given string.
\<close>

type_synonym jsstring = "16 word list"

definition lit :: "string \<Rightarrow> jsstring" where
  "lit s = map (\<lambda>c. of_nat (of_char c)) s"

datatype jsval =
    Undefined
  | Null
  | JBool bool
  | JStr jsstring
  | JOther jsstring bool
    \<comment> \<open>a number, array or object: what \<open>String\<close> renders for it, and whether it is truthy
        (an object that \<open>String\<close> cannot convert is not a value of this type; the
        \<open>MessageType\<close> union declares every such field a string)\<close>

fun truthy :: "jsval \<Rightarrow> bool" where
  "truthy Undefined = False"
| "truthy Null = False"
| "truthy (JBool b) = b"
| "truthy (JStr s) = (s \<noteq> [])"
| "truthy (JOther r t) = t"

fun nullish :: "jsval \<Rightarrow> bool" where
  "nullish Undefined = True"
| "nullish Null = True"
| "nullish v = False"

text \<open>\<open>a ?? b\<close> and \<open>a || b\<close>.\<close>

definition nullish_coalesce :: "jsval \<Rightarrow> jsval \<Rightarrow> jsval" where
  "nullish_coalesce a b = (if nullish a then b else a)"

definition logical_or :: "jsval \<Rightarrow> jsval \<Rightarrow> jsval" where
  "logical_or a b = (if truthy a then a else b)"

text \<open>\<open>String(v)\<close>.\<close>

fun js_String :: "jsval \<Rightarrow> jsstring" where
  "js_String Undefined = lit ''undefined''"
| "js_String Null = lit ''null''"
| "js_String (JBool b) = (if b then lit ''true'' else lit ''false'')"
| "js_String (JStr s) = s"
| "js_String (JOther r t) = r"

text \<open>\<open>s === v\<close> for a string \<open>s\<close>: true only for the same string.\<close>

fun str_strict_eq :: "jsstring \<Rightarrow> jsval \<Rightarrow> bool" where
  "str_strict_eq s (JStr v) = (s = v)"
| "str_strict_eq s v = False"

text \<open>
  \<open>String.prototype.trim\<close> strips the code units of ECMAScript's WhiteSpace and
  LineTerminator productions from both ends.
\<close>

definition is_js_space :: "16 word \<Rightarrow> bool" where
  "is_js_space c \<longleftrightarrow>
     c \<in> {0x9, 0xA, 0xB, 0xC, 0xD, 0x20, 0xA0, 0x1680, 0x2028, 0x2029, 0x202F, 0x205F,
          0x3000, 0xFEFF}
     \<or> (0x2000 \<le> c \<and> c \<le> 0x200A)"

definition trim :: "jsstring \<Rightarrow> jsstring" where
  "trim s = rev (dropWhile is_js_space (rev (dropWhile is_js_space s)))"

text \<open>\<open>padStart(n, c)\<close> with a one-unit pad string.\<close>

definition padStart :: "nat \<Rightarrow> 16 word \<Rightarrow> jsstring \<Rightarrow> jsstring" where
  "padStart n c s = replicate (n - length s) c @ s"

text \<open>Decimal rendering of a number in a template string.\<close>

fun dec_nat :: "nat \<Rightarrow> jsstring" where
  "dec_nat n =
     (if n < 10 then [of_nat (48 + n)] else dec_nat (n div 10) @ [of_nat (48 + n mod 10)])"

declare dec_nat.simps [simp del]

definition dec_int :: "int \<Rightarrow> jsstring" where
  "dec_int i = (if i < 0 then 45 # dec_nat (nat (- i)) else dec_nat (nat i))"

section \<open>Data model\<close>

text \<open>\<open>QueueItem\<close> of the shared types: \<open>{ id: string; text: string }\<close>.\<close>

record item =
  item_id :: jsstring
  item_text :: jsstring

text \<open>The per-tab record \<open>{ queue, paused, pageBusy, sending }\<close> held in \<open>tabState\<close>.\<close>

record tab_state =
  queue :: "item list"
  paused :: bool
  pageBusy :: bool
  sending :: bool

text \<open>
  What \<open>chrome.storage.local\<close> holds under a key. Either field may be missing from a
  stored object, which is why \<open>getState\<close> reads them through \<open>??\<close>.
\<close>

record saved =
  saved_queue :: "item list option"
  saved_paused :: "bool option"

text \<open>Messages to the background script (the \<open>MessageType\<close> union, fields as received).\<close>

datatype message =
    HELLO
  | PAGE_STATE jsval
  | QUEUE_ADD jsval
  | QUEUE_REMOVE jsval
  | QUEUE_UPDATE jsval jsval
  | QUEUE_CLEAR
  | QUEUE_GET
  | PAUSE
  | RESUME
  | SUBMITTED jsval
  | ERROR jsval
  | PING
  | OTHER

text \<open>Messages the background script sends to a tab.\<close>

datatype out_msg =
    QUEUE_UPDATED "item list" bool
  | SEND_TEXT jsstring jsstring
    \<comment> \<open>\<open>text\<close>, then \<open>id\<close>\<close>

text \<open>The objects passed to \<open>sendResponse\<close>.\<close>

datatype response =
    Ok
  | Ok_id jsstring
  | Ok_state "item list" bool
  | Not_ok jsstring

text \<open>
  Calls that leave the background script, in the order they are made:
  \<open>chrome.tabs.sendMessage\<close>, \<open>chrome.storage.local.set\<close>, \<open>sendResponse\<close>,
  \<open>console.warn\<close>, and \<open>setTimeout\<close> of a \<open>maybeSendNext\<close> for a tab after a
  delay in milliseconds.
\<close>

datatype effect =
    TabsSendMessage int out_msg
  | StorageSet jsstring saved
  | SendResponse response
  | ConsoleWarn jsval
  | SetTimeout_maybeSendNext int nat

text \<open>
  The state of the service worker: the \<open>tabState\<close> map, the extension's local storage,
  and the calls made so far.
\<close>

record world =
  tabState :: "int \<rightharpoonup> tab_state"
  storage :: "jsstring \<rightharpoonup> saved"
  effects :: "effect list"

definition emit :: "effect \<Rightarrow> world \<Rightarrow> world" where
  "emit e w = w\<lparr>effects := effects w @ [e]\<rparr>"

text \<open>
  A field assignment through the reference \<open>s\<close> that \<open>getState\<close> returned changes the
  object stored in the map.
\<close>

definition put :: "int \<Rightarrow> tab_state \<Rightarrow> world \<Rightarrow> world" where
  "put tabId s w = w\<lparr>tabState := (tabState w)(tabId \<mapsto> s)\<rparr>"

text \<open>The service worker after a restart: memory is gone, storage stays.\<close>

definition restart :: "world \<Rightarrow> world" where
  "restart w = w\<lparr>tabState := Map.empty\<rparr>"

definition initial :: world where
  "initial = \<lparr>tabState = Map.empty, storage = Map.empty, effects = []\<rparr>"

section \<open>The background script\<close>

definition keyFor :: "int \<Rightarrow> jsstring" where
  "keyFor tabId = lit ''queue:'' @ dec_int tabId"

text \<open>
  \<open>x.toString(16)\<close> for a byte, and \<open>randomId\<close> over the array that
  \<open>crypto.getRandomValues\<close> filled: \<open>a i\<close> is its \<open>i\<close>-th byte.
\<close>

definition hex_digit :: "8 word \<Rightarrow> 16 word" where
  "hex_digit d = (if d < 10 then 48 + ucast d else 87 + ucast d)"

definition toString16 :: "8 word \<Rightarrow> jsstring" where
  "toString16 x = (if x < 16 then [hex_digit x] else [hex_digit (x div 16), hex_digit (x mod 16)])"

definition randomId :: "(nat \<Rightarrow> 8 word) \<Rightarrow> nat \<Rightarrow> jsstring" where
  "randomId a len = concat (map (\<lambda>i. padStart 2 48 (toString16 (a i))) [0..<len])"

definition getState :: "int \<Rightarrow> world \<Rightarrow> tab_state \<times> world" where
  "getState tabId w =
     (case tabState w tabId of
        Some s \<Rightarrow> (s, w)
      | None \<Rightarrow>
          let saved = storage w (keyFor tabId);
              s = \<lparr>queue = (case saved of None \<Rightarrow> []
                             | Some r \<Rightarrow> (case saved_queue r of None \<Rightarrow> [] | Some q \<Rightarrow> q)),
                   paused = (case saved of None \<Rightarrow> False
                             | Some r \<Rightarrow> (case saved_paused r of None \<Rightarrow> False | Some p \<Rightarrow> p)),
                   pageBusy = False,
                   sending = False\<rparr>
          in (s, put tabId s w))"

definition save :: "int \<Rightarrow> world \<Rightarrow> world" where
  "save tabId w0 =
     (let (s, w) = getState tabId w0;
          r = \<lparr>saved_queue = Some (queue s), saved_paused = Some (paused s)\<rparr>
      in emit (StorageSet (keyFor tabId) r) (w\<lparr>storage := (storage w)(keyFor tabId \<mapsto> r)\<rparr>))"

text \<open>A failure of the send is caught and ignored, so its outcome plays no part.\<close>

definition broadcast :: "int \<Rightarrow> world \<Rightarrow> world" where
  "broadcast tabId w0 =
     (let (s, w) = getState tabId w0
      in emit (TabsSendMessage tabId (QUEUE_UPDATED (queue s) (paused s))) w)"

text \<open>
  \<open>delivered\<close> says whether the promise of \<open>chrome.tabs.sendMessage\<close> for
  \<open>SEND_TEXT\<close> resolves; when it rejects, the \<open>catch\<close> branch runs.
\<close>

definition maybeSendNext :: "bool \<Rightarrow> int \<Rightarrow> world \<Rightarrow> world" where
  "maybeSendNext delivered tabId w0 =
     (let (s, w) = getState tabId w0 in
      if paused s then w
      else if sending s then w
      else if pageBusy s then w
      else (case queue s of
              [] \<Rightarrow> w
            | next # rest \<Rightarrow>
                let s1 = s\<lparr>sending := True\<rparr>;
                    w1 = put tabId s1 w;
                    w2 = emit (TabsSendMessage tabId (SEND_TEXT (item_text next) (item_id next))) w1
                in if delivered then w2 else put tabId (s1\<lparr>sending := False\<rparr>) w2))"

text \<open>\<open>Array.prototype.findIndex\<close>: the first index that satisfies the test, or \<open>-1\<close>.\<close>

fun findIndex :: "('a \<Rightarrow> bool) \<Rightarrow> 'a list \<Rightarrow> int" where
  "findIndex P [] = - 1"
| "findIndex P (x # xs) =
     (if P x then 0 else (let i = findIndex P xs in if i = - 1 then - 1 else i + 1))"

text \<open>\<open>Array.prototype.shift\<close> as used here (the removed element is dropped).\<close>

fun shift :: "'a list \<Rightarrow> 'a list" where
  "shift [] = []"
| "shift (x # xs) = xs"

text \<open>
  The body of the listener's \<open>switch\<close>. Each case runs to its end before the next
  message is taken. A call of \<open>maybeSendNext\<close> that is not awaited runs its checks only
  after the case has called \<open>sendResponse\<close>, so its send comes after the response.
  \<open>a\<close> is the array of random bytes drawn by \<open>randomId\<close>.
\<close>

fun handle :: "message \<Rightarrow> int \<Rightarrow> (nat \<Rightarrow> 8 word) \<Rightarrow> bool \<Rightarrow> world \<Rightarrow> world" where
  "handle HELLO tabId a delivered w0 =
     (let (s, w) = getState tabId w0;
          w = broadcast tabId w
      in emit (SendResponse Ok) w)"
| "handle (PAGE_STATE busy) tabId a delivered w0 =
     (let (s, w) = getState tabId w0;
          prev = pageBusy s;
          s = s\<lparr>pageBusy := truthy busy\<rparr>;
          w = put tabId s w
      in if prev \<noteq> pageBusy s \<and> \<not> pageBusy s then maybeSendNext delivered tabId w else w)"
| "handle (QUEUE_ADD txt) tabId a delivered w0 =
     (let (s, w) = getState tabId w0;
          ident = randomId a 8;
          s = s\<lparr>queue := queue s @
                 [\<lparr>item_id = ident, item_text = trim (js_String (nullish_coalesce txt (JStr [])))\<rparr>]\<rparr>;
          w = put tabId s w;
          w = save tabId w;
          w = broadcast tabId w;
          w = emit (SendResponse (Ok_id ident)) w
      in maybeSendNext delivered tabId w)"
| "handle (QUEUE_REMOVE ident) tabId a delivered w0 =
     (let (s, w) = getState tabId w0;
          s = s\<lparr>queue := filter (\<lambda>item. \<not> str_strict_eq (item_id item) ident) (queue s)\<rparr>;
          w = put tabId s w;
          w = save tabId w;
          w = broadcast tabId w
      in emit (SendResponse Ok) w)"
| "handle (QUEUE_UPDATE ident0 txt0) tabId a delivered w0 =
     (let (s, w) = getState tabId w0;
          ident = js_String (logical_or ident0 (JStr []));
          txt = trim (js_String (logical_or txt0 (JStr [])));
          idx = findIndex (\<lambda>it. item_id it = ident) (queue s)
      in if idx \<noteq> - 1 then
           let s = s\<lparr>queue := (queue s)[nat idx := (queue s ! nat idx)\<lparr>item_text := txt\<rparr>]\<rparr>;
               w = put tabId s w;
               w = save tabId w;
               w = broadcast tabId w
           in emit (SendResponse Ok) w
         else emit (SendResponse (Not_ok (lit ''not_found''))) w)"
| "handle QUEUE_CLEAR tabId a delivered w0 =
     (let (s, w) = getState tabId w0;
          s = s\<lparr>queue := []\<rparr>;
          w = put tabId s w;
          w = save tabId w;
          w = broadcast tabId w
      in emit (SendResponse Ok) w)"
| "handle QUEUE_GET tabId a delivered w0 =
     (let (s, w) = getState tabId w0
      in emit (SendResponse (Ok_state (queue s) (paused s))) w)"
| "handle PAUSE tabId a delivered w0 =
     (let (s, w) = getState tabId w0;
          s = s\<lparr>paused := True\<rparr>;
          w = put tabId s w;
          w = save tabId w;
          w = broadcast tabId w
      in emit (SendResponse Ok) w)"
| "handle RESUME tabId a delivered w0 =
     (let (s, w) = getState tabId w0;
          s = s\<lparr>paused := False\<rparr>;
          w = put tabId s w;
          w = save tabId w;
          w = broadcast tabId w;
          w = emit (SendResponse Ok) w
      in maybeSendNext delivered tabId w)"
| "handle (SUBMITTED ident) tabId a delivered w0 =
     (let (s, w) = getState tabId w0
      in if (case queue s of [] \<Rightarrow> ident = Undefined | h # rest \<Rightarrow> str_strict_eq (item_id h) ident)
         then
           let s = s\<lparr>queue := shift (queue s)\<rparr>;
               s = s\<lparr>sending := False\<rparr>;
               w = put tabId s w;
               w = save tabId w
           in broadcast tabId w
         else put tabId (s\<lparr>sending := False\<rparr>) w)"
| "handle (ERROR err) tabId a delivered w0 =
     (let (s, w) = getState tabId w0;
          s = s\<lparr>sending := False\<rparr>;
          w = put tabId s w;
          w = broadcast tabId w;
          w = emit (ConsoleWarn err) w
      in emit (SetTimeout_maybeSendNext tabId 400) w)"
| "handle PING tabId a delivered w0 = w0"
| "handle OTHER tabId a delivered w0 = w0"

text \<open>
  The listener. \<open>tabId\<close> is \<open>sender.tab?.id ?? msg.tabId\<close>, \<open>None\<close> when that is
  undefined. A message without a truthy tab id is ignored; a \<open>PING\<close> passes the guard
  and falls to the default case, which does nothing either.
\<close>

definition onMessage ::
  "message \<Rightarrow> int option \<Rightarrow> (nat \<Rightarrow> 8 word) \<Rightarrow> bool \<Rightarrow> world \<Rightarrow> world" where
  "onMessage msg tabId a delivered w =
     (case tabId of
        None \<Rightarrow> w
      | Some t \<Rightarrow> if t = 0 \<and> msg \<noteq> PING then w else handle msg t a delivered w)"

text \<open>The context of a tab as a handler sees it: what \<open>getState\<close> returns.\<close>

definition ctx :: "int \<Rightarrow> world \<Rightarrow> tab_state" where
  "ctx tabId w = fst (getState tabId w)"

section \<open>Triggers and observations\<close>

text \<open>
  What can happen to the context of one tab: a message arrives (with the random bytes an
  enqueue would draw and the fate of a \<open>SEND_TEXT\<close> it may send), or the retry timer
  armed by \<open>ERROR\<close> fires and calls \<open>maybeSendNext\<close>.
\<close>

datatype trigger =
    Msg message "nat \<Rightarrow> 8 word" bool
  | Timer bool

fun fire :: "int \<Rightarrow> trigger \<Rightarrow> world \<Rightarrow> world" where
  "fire tabId (Msg m a delivered) w = handle m tabId a delivered w"
| "fire tabId (Timer delivered) w = maybeSendNext delivered tabId w"

fun run :: "int \<Rightarrow> trigger list \<Rightarrow> world \<Rightarrow> world" where
  "run tabId [] w = w"
| "run tabId (tr # trs) w = run tabId trs (fire tabId tr w)"

text \<open>The \<open>SEND_TEXT\<close> messages among the calls made so far, and the timers armed.\<close>

fun is_dispatch :: "effect \<Rightarrow> bool" where
  "is_dispatch (TabsSendMessage t (SEND_TEXT x i)) = True"
| "is_dispatch e = False"

definition dispatched :: "world \<Rightarrow> effect list" where
  "dispatched w = filter is_dispatch (effects w)"

fun is_timer :: "effect \<Rightarrow> bool" where
  "is_timer (SetTimeout_maybeSendNext t ms) = True"
| "is_timer e = False"

definition timers :: "world \<Rightarrow> effect list" where
  "timers w = filter is_timer (effects w)"

text \<open>Triggers that report the outcome of a dispatch.\<close>

fun is_outcome :: "trigger \<Rightarrow> bool" where
  "is_outcome (Msg (SUBMITTED i) a d) = True"
| "is_outcome (Msg (ERROR e) a d) = True"
| "is_outcome tr = False"

fun is_error :: "trigger \<Rightarrow> bool" where
  "is_error (Msg (ERROR e) a d) = True"
| "is_error tr = False"

text \<open>Triggers whose handler assigns a shorter array to \<open>s.queue\<close> while leaving \<open>s.sending\<close>.\<close>

fun is_removal :: "trigger \<Rightarrow> bool" where
  "is_removal (Msg (QUEUE_REMOVE i) a d) = True"
| "is_removal (Msg QUEUE_CLEAR a d) = True"
| "is_removal tr = False"

text \<open>Triggers whose handler can take an item out of the queue.\<close>

fun takes_out :: "trigger \<Rightarrow> bool" where
  "takes_out (Msg (QUEUE_REMOVE i) a d) = True"
| "takes_out (Msg QUEUE_CLEAR a d) = True"
| "takes_out (Msg (SUBMITTED i) a d) = True"
| "takes_out tr = False"

text \<open>The items the \<open>QUEUE_ADD\<close> messages of a run push, in the order of the run.\<close>

fun enqueued :: "trigger list \<Rightarrow> item list" where
  "enqueued [] = []"
| "enqueued (Msg (QUEUE_ADD x) a d # trs) =
     \<lparr>item_id = randomId a 8, item_text = trim (js_String (nullish_coalesce x (JStr [])))\<rparr>
       # enqueued trs"
| "enqueued (tr # trs) = enqueued trs"

text \<open>
  Triggers that take every item with id \<open>h\<close> out of the queue whatever the queue holds:
  a \<open>QUEUE_REMOVE\<close> of that id and a \<open>QUEUE_CLEAR\<close>.
\<close>

fun removes_id :: "jsstring \<Rightarrow> trigger \<Rightarrow> bool" where
  "removes_id h (Msg (QUEUE_REMOVE i) a d) = (i = JStr h)"
| "removes_id h (Msg QUEUE_CLEAR a d) = True"
| "removes_id h tr = False"

text \<open>
  Triggers whose handler assigns the empty array to \<open>s.queue\<close> when the queue is \<open>q\<close>:
  a \<open>QUEUE_CLEAR\<close>, and a \<open>QUEUE_REMOVE\<close> of an id that every item of \<open>q\<close> has.
\<close>

fun empties :: "trigger \<Rightarrow> item list \<Rightarrow> bool" where
  "empties (Msg (QUEUE_REMOVE i) a d) q = list_all (\<lambda>it. JStr (item_id it) = i) q"
| "empties (Msg QUEUE_CLEAR a d) q = True"
| "empties tr q = False"

text \<open>A run in which no trigger empties the queue of the tab while \<open>sending\<close> is true.\<close>

fun calm :: "int \<Rightarrow> trigger list \<Rightarrow> world \<Rightarrow> bool" where
  "calm tabId [] w = True"
| "calm tabId (tr # trs) w =
     (\<not> (sending (ctx tabId w) \<and> empties tr (queue (ctx tabId w)))
      \<and> calm tabId trs (fire tabId tr w))"

text \<open>
  The arrays of random bytes that the \<open>QUEUE_ADD\<close> messages of a run draw, in the order
  of the run.
\<close>

fun draws :: "trigger list \<Rightarrow> 8 word list list" where
  "draws [] = []"
| "draws (Msg (QUEUE_ADD x) a d # trs) = map a [0..<8] # draws trs"
| "draws (tr # trs) = draws trs"

section \<open>Sample inputs\<close>

definition bytes_a :: "nat \<Rightarrow> 8 word" where
  "bytes_a i = of_nat (37 * i + 3)"

definition bytes_b :: "nat \<Rightarrow> 8 word" where
  "bytes_b i = of_nat (11 * i + 200)"

definition item_x :: item where
  "item_x = \<lparr>item_id = lit ''0a1b'', item_text = lit ''first''\<rparr>"

definition item_y :: item where
  "item_y = \<lparr>item_id = lit ''2c3d'', item_text = lit ''second''\<rparr>"

text \<open>A tab with two queued items, idle and not paused; the same with the head in flight.\<close>

definition idle_xy :: world where
  "idle_xy = put 7 \<lparr>queue = [item_x, item_y], paused = False, pageBusy = False, sending = False\<rparr>
               initial"

definition flying_xy :: world where
  "flying_xy = put 7 \<lparr>queue = [item_x, item_y], paused = False, pageBusy = True, sending = True\<rparr>
                 initial"

text \<open>A fresh tab after one enqueue, with either draw.\<close>

definition once_a :: world where
  "once_a = onMessage (QUEUE_ADD (JStr (lit ''x''))) (Some 7) bytes_a True initial"

definition once_b :: world where
  "once_b = onMessage (QUEUE_ADD (JStr (lit ''x''))) (Some 7) bytes_b True initial"

section \<open>What each operation does to the context, the storage and the calls made\<close>

lemma getState_eq: "getState t w = (ctx t w, put t (ctx t w) w)"
  by (simp add: ctx_def getState_def put_def Let_def map_upd_triv split: option.splits)

lemma put_put [simp]: "put t s (put t s' w) = put t s w"
  by (simp add: put_def)

lemma ctx_put [simp]: "ctx t (put t s w) = s"
  by (simp add: ctx_def getState_def put_def)

lemma ctx_emit [simp]: "ctx t (emit e w) = ctx t w"
  by (simp add: ctx_def getState_def emit_def put_def Let_def split: option.splits)

lemma effects_put [simp]: "effects (put t s w) = effects w"
  by (simp add: put_def)

lemma storage_put [simp]: "storage (put t s w) = storage w"
  by (simp add: put_def)

lemma effects_emit [simp]: "effects (emit e w) = effects w @ [e]"
  by (simp add: emit_def)

lemma storage_emit [simp]: "storage (emit e w) = storage w"
  by (simp add: emit_def)

lemma ctx_save [simp]: "ctx t (save t w) = ctx t w"
  by (simp add: ctx_def save_def getState_def emit_def put_def Let_def split: option.splits)

lemma effects_save [simp]:
  "effects (save t w) = effects w @
     [StorageSet (keyFor t)
        \<lparr>saved_queue = Some (queue (ctx t w)), saved_paused = Some (paused (ctx t w))\<rparr>]"
  by (simp add: save_def getState_eq Let_def)

lemma storage_save [simp]:
  "storage (save t w) = (storage w)(keyFor t \<mapsto>
     \<lparr>saved_queue = Some (queue (ctx t w)), saved_paused = Some (paused (ctx t w))\<rparr>)"
  by (simp add: save_def getState_eq Let_def)

lemma ctx_broadcast [simp]: "ctx t (broadcast t w) = ctx t w"
  by (simp add: broadcast_def getState_eq)

lemma effects_broadcast [simp]:
  "effects (broadcast t w) = effects w @
     [TabsSendMessage t (QUEUE_UPDATED (queue (ctx t w)) (paused (ctx t w)))]"
  by (simp add: broadcast_def getState_eq)

lemma storage_broadcast [simp]: "storage (broadcast t w) = storage w"
  by (simp add: broadcast_def getState_eq)

lemma ctx_maybeSendNext:
  "ctx t (maybeSendNext d t w) =
     (if queue (ctx t w) \<noteq> [] \<and> \<not> paused (ctx t w) \<and> \<not> pageBusy (ctx t w)
         \<and> \<not> sending (ctx t w)
      then (ctx t w)\<lparr>sending := d\<rparr> else ctx t w)"
  by (cases d) (simp_all add: maybeSendNext_def getState_eq Let_def split: list.splits)

lemma effects_maybeSendNext:
  "effects (maybeSendNext d t w) =
     (if queue (ctx t w) \<noteq> [] \<and> \<not> paused (ctx t w) \<and> \<not> pageBusy (ctx t w)
         \<and> \<not> sending (ctx t w)
      then effects w @
        [TabsSendMessage t
           (SEND_TEXT (item_text (hd (queue (ctx t w)))) (item_id (hd (queue (ctx t w)))))]
      else effects w)"
  by (simp add: maybeSendNext_def getState_eq Let_def split: list.splits)

lemma storage_maybeSendNext [simp]: "storage (maybeSendNext d t w) = storage w"
  by (simp add: maybeSendNext_def getState_eq Let_def split: list.splits)

lemma str_strict_eq_iff: "str_strict_eq s v \<longleftrightarrow> v = JStr s"
  by (cases v) auto

lemma ctx_initial:
  "ctx t initial = \<lparr>queue = [], paused = False, pageBusy = False, sending = False\<rparr>"
  by (simp add: ctx_def getState_def initial_def Let_def)

lemma effects_initial [simp]: "effects initial = []"
  by (simp add: initial_def)

lemma storage_initial [simp]: "storage initial = Map.empty"
  by (simp add: initial_def)

section \<open>Strings: trimming and random ids\<close>

lemma strip_back: "m = rev (dropWhile P (rev m)) @ rev (takeWhile P (rev m))"
proof -
  have "rev (rev m) = rev (takeWhile P (rev m) @ dropWhile P (rev m))"
    by (simp only: takeWhile_dropWhile_id)
  then show ?thesis
    by (simp only: rev_rev_ident rev_append)
qed

lemma trim_all_space: "list_all is_js_space s \<Longrightarrow> trim s = []"
proof -
  assume "list_all is_js_space s"
  then have "dropWhile is_js_space s = []"
    by (simp add: list_all_iff)
  then show ?thesis
    by (simp only: trim_def dropWhile.simps rev.simps)
qed

lemma trim_parts:
  "\<exists>pre post. s = pre @ trim s @ post \<and> list_all is_js_space pre \<and> list_all is_js_space post"
proof -
  let ?m = "dropWhile is_js_space s"
  have m: "?m = trim s @ rev (takeWhile is_js_space (rev ?m))"
    unfolding trim_def by (rule strip_back)
  have "s = takeWhile is_js_space s @ ?m"
    by simp
  with m have "s = takeWhile is_js_space s @ trim s @ rev (takeWhile is_js_space (rev ?m))"
    by simp
  moreover have "list_all is_js_space (takeWhile is_js_space s)"
    by (auto simp: list_all_iff dest: set_takeWhileD)
  moreover have "list_all is_js_space (rev (takeWhile is_js_space (rev ?m)))"
    by (auto simp: list_all_iff dest: set_takeWhileD)
  ultimately show ?thesis by blast
qed

lemma trim_ends:
  assumes "trim s \<noteq> []"
  shows "\<not> is_js_space (hd (trim s))" and "\<not> is_js_space (last (trim s))"
proof -
  let ?m = "dropWhile is_js_space s"
  let ?d = "dropWhile is_js_space (rev ?m)"
  from assms have ne: "?d \<noteq> []"
    unfolding trim_def by (simp only: rev_is_Nil_conv not_False_eq_True)
  then have "\<not> is_js_space (hd ?d)"
    by (rule hd_dropWhile)
  moreover have "last (trim s) = hd ?d"
    unfolding trim_def using ne by (simp only: last_rev)
  ultimately show "\<not> is_js_space (last (trim s))"
    by simp
  have m: "?m = trim s @ rev (takeWhile is_js_space (rev ?m))"
    unfolding trim_def by (rule strip_back)
  with assms have m_ne: "?m \<noteq> []"
    by (metis append_is_Nil_conv)
  then have "\<not> is_js_space (hd ?m)"
    by (rule hd_dropWhile)
  moreover from m assms have "hd ?m = hd (trim s)"
    by (metis hd_append2)
  ultimately show "\<not> is_js_space (hd (trim s))"
    by simp
qed


lemma unat_byte_bound: "unat (d :: 8 word) < 256"
  using unsigned_less [of d] by simp

lemma unat_ucast_byte: "unat (ucast (d :: 8 word) :: 16 word) = unat d"
  using unat_byte_bound [of d] by (simp add: unsigned_ucast_eq take_bit_nat_eq_self)

lemma unat_hex_digit:
  "unat (hex_digit d) = (if unat d < 10 then 48 + unat d else 87 + unat d)"
  using unat_byte_bound [of d]
  by (simp add: hex_digit_def word_less_nat_alt unat_word_ariths unat_ucast_byte)

lemma hex_digit_inj:
  assumes "unat d < 16" and "unat e < 16" and "hex_digit d = hex_digit e"
  shows "d = e"
proof -
  from assms(3) have "unat (hex_digit d) = unat (hex_digit e)" by simp
  with assms(1,2) have "unat d = unat e"
    by (simp add: unat_hex_digit split: if_splits)
  then show ?thesis by (simp add: word_unat_eq_iff)
qed

lemma byte_hex:
  "padStart 2 48 (toString16 x) = [hex_digit (x div 16), hex_digit (x mod 16)]"
proof (cases "x < 16")
  case True
  then have "unat x < 16" by (simp add: word_less_nat_alt)
  then have "x div 16 = 0" and "x mod 16 = x"
    by (simp_all add: word_unat_eq_iff unat_div unat_mod)
  with True show ?thesis
    by (simp add: padStart_def toString16_def hex_digit_def)
next
  case False
  then show ?thesis
    by (simp add: padStart_def toString16_def)
qed

lemma byte_hex_inj:
  assumes "padStart 2 48 (toString16 x) = padStart 2 48 (toString16 y)"
  shows "x = y"
proof -
  have lt: "unat (z div 16) < 16" "unat (z mod 16) < 16" for z :: "8 word"
    using unat_byte_bound [of z] by (simp_all add: unat_div unat_mod)
  from assms have "hex_digit (x div 16) = hex_digit (y div 16)"
    and "hex_digit (x mod 16) = hex_digit (y mod 16)"
    by (simp_all add: byte_hex)
  then have "x div 16 = y div 16" and "x mod 16 = y mod 16"
    using lt by (auto intro: hex_digit_inj)
  then have "unat x div 16 = unat y div 16" and "unat x mod 16 = unat y mod 16"
    by (simp_all add: word_unat_eq_iff unat_div unat_mod)
  then have "unat x = unat y"
    by (metis div_mult_mod_eq)
  then show ?thesis by (simp add: word_unat_eq_iff)
qed

lemma randomId_Suc:
  "randomId a (Suc n) = randomId a n @ padStart 2 48 (toString16 (a n))"
  by (simp add: randomId_def)

lemma length_randomId: "length (randomId a n) = 2 * n"
  by (induction n) (simp_all add: randomId_Suc byte_hex, simp add: randomId_def)

lemma randomId_inj: "randomId a n = randomId b n \<longleftrightarrow> (\<forall>i < n. a i = b i)"
proof (induction n)
  case 0
  show ?case by (simp add: randomId_def)
next
  case (Suc n)
  have "randomId a (Suc n) = randomId b (Suc n) \<longleftrightarrow>
        randomId a n = randomId b n
        \<and> padStart 2 48 (toString16 (a n)) = padStart 2 48 (toString16 (b n))"
    by (simp add: randomId_Suc length_randomId)
  also have "\<dots> \<longleftrightarrow> (\<forall>i < n. a i = b i) \<and> a n = b n"
    using Suc.IH byte_hex_inj [of "a n" "b n"] by auto
  also have "\<dots> \<longleftrightarrow> (\<forall>i < Suc n. a i = b i)"
    by (auto simp: less_Suc_eq)
  finally show ?case .
qed

lemma bytes_a_b_differ: "randomId bytes_a 8 \<noteq> randomId bytes_b 8"
proof -
  have "bytes_a 0 \<noteq> bytes_b 0"
    by (simp add: bytes_a_def bytes_b_def)
  then have "\<not> (\<forall>i < 8. bytes_a i = bytes_b i)"
    by (metis zero_less_numeral)
  then show ?thesis
    by (simp add: randomId_inj)
qed

section \<open>Outcome of a dispatch: \<open>SUBMITTED\<close>\<close>

text \<open>
  Claim C2. Whatever the context and the reported id, \<open>SUBMITTED\<close> removes the head item
  exactly when the reported id is the head's id, and then stores and broadcasts the
  shortened queue; on any other id the queue, the storage and the calls made stay as they
  were, and on an empty queue the queue stays empty. In every case \<open>sending\<close> ends up
  false, \<open>paused\<close> and \<open>pageBusy\<close> are untouched, and no \<open>SEND_TEXT\<close> is sent.
\<close>

theorem submitted_removes_head_only:
  fixes w t i a d
  defines "s \<equiv> ctx t w" and "w' \<equiv> handle (SUBMITTED i) t a d w"
  shows "(case queue s of
            [] \<Rightarrow> queue (ctx t w') = []
          | h # rest \<Rightarrow>
              if i = JStr (item_id h)
              then queue (ctx t w') = rest
                 \<and> storage w' (keyFor t) =
                     Some \<lparr>saved_queue = Some rest, saved_paused = Some (paused s)\<rparr>
                 \<and> effects w' = effects w @
                     [StorageSet (keyFor t)
                        \<lparr>saved_queue = Some rest, saved_paused = Some (paused s)\<rparr>,
                      TabsSendMessage t (QUEUE_UPDATED rest (paused s))]
              else queue (ctx t w') = h # rest \<and> storage w' = storage w
                 \<and> effects w' = effects w)
       \<and> ctx t w' = s\<lparr>queue := queue (ctx t w'), sending := False\<rparr>
       \<and> dispatched w' = dispatched w"
  unfolding s_def w'_def
  by (cases i) (simp_all add: getState_eq Let_def dispatched_def split: list.splits)

theorem submitted_removes_head_only_witness:
  "queue (ctx 7 (handle (SUBMITTED (JStr (lit ''0a1b''))) 7 bytes_a True flying_xy)) = [item_y]
   \<and> queue (ctx 7 (handle (SUBMITTED (JStr (lit ''2c3d''))) 7 bytes_a True flying_xy))
       = [item_x, item_y]
   \<and> \<not> sending (ctx 7 (handle (SUBMITTED (JStr (lit ''2c3d''))) 7 bytes_a True flying_xy))"
  using submitted_removes_head_only
      [where t = 7 and w = flying_xy and i = "JStr (lit ''0a1b'')" and a = bytes_a and d = True]
    submitted_removes_head_only
      [where t = 7 and w = flying_xy and i = "JStr (lit ''2c3d'')" and a = bytes_a and d = True]
  by (simp add: flying_xy_def item_x_def item_y_def lit_def getState_eq Let_def)

section \<open>The dispatch attempt\<close>

lemma fire_while_sending:
  assumes "sending (ctx t w)"
  shows "dispatched (fire t tr w) = dispatched w"
    and "\<not> is_outcome tr \<Longrightarrow> sending (ctx t (fire t tr w))"
proof -
  show "dispatched (fire t tr w) = dispatched w"
  proof (cases tr)
    case (Msg m a d)
    with assms show ?thesis
      by (cases m)
        (simp_all add: getState_eq Let_def dispatched_def effects_maybeSendNext ctx_maybeSendNext)
  next
    case (Timer d)
    with assms show ?thesis
      by (simp add: dispatched_def effects_maybeSendNext)
  qed
  show "sending (ctx t (fire t tr w))" if "\<not> is_outcome tr"
  proof (cases tr)
    case (Msg m a d)
    with assms that show ?thesis
      by (cases m) (simp_all add: getState_eq Let_def ctx_maybeSendNext)
  next
    case (Timer d)
    with assms show ?thesis
      by (simp add: ctx_maybeSendNext)
  qed
qed

lemma fire_dispatches_at_most_one:
  "length (dispatched (fire t tr w)) \<le> Suc (length (dispatched w))"
proof (cases tr)
  case (Msg m a d)
  then show ?thesis
    by (cases m)
      (simp_all add: getState_eq Let_def dispatched_def effects_maybeSendNext ctx_maybeSendNext)
next
  case (Timer d)
  then show ?thesis
    by (simp add: dispatched_def effects_maybeSendNext)
qed

lemma run_while_sending:
  "sending (ctx t w) \<Longrightarrow> list_all (\<lambda>tr. \<not> is_outcome tr) trs \<Longrightarrow>
   dispatched (run t trs w) = dispatched w \<and> sending (ctx t (run t trs w))"
proof (induction trs arbitrary: w)
  case Nil
  then show ?case by simp
next
  case (Cons tr trs)
  from Cons.prems have "sending (ctx t (fire t tr w))"
    and "dispatched (fire t tr w) = dispatched w"
    by (simp_all add: fire_while_sending)
  with Cons.IH [of "fire t tr w"] Cons.prems show ?case by simp
qed

lemma update_head_id:
  "q \<noteq> [] \<Longrightarrow> item_id (hd (q[k := (q ! k)\<lparr>item_text := x\<rparr>])) = item_id (hd q)"
  by (cases q; cases k) simp_all

lemma fire_keeps_head:
  assumes "sending (ctx t w)" and "queue (ctx t w) \<noteq> []"
    and "\<not> is_outcome tr" and "\<not> removes_id (item_id (hd (queue (ctx t w)))) tr"
  shows "queue (ctx t (fire t tr w)) \<noteq> []
       \<and> item_id (hd (queue (ctx t (fire t tr w)))) = item_id (hd (queue (ctx t w)))"
proof (cases tr)
  case (Msg m a d)
  show ?thesis
  proof (cases m)
    case (QUEUE_REMOVE i)
    obtain h r where q: "queue (ctx t w) = h # r"
      using assms(2) by (cases "queue (ctx t w)") auto
    with assms(4) Msg QUEUE_REMOVE have "i \<noteq> JStr (item_id h)" by simp
    with q Msg QUEUE_REMOVE show ?thesis
      by (simp add: getState_eq Let_def str_strict_eq_iff)
  next
    case (QUEUE_UPDATE i x)
    with Msg assms(2) show ?thesis
      by (simp add: getState_eq Let_def update_head_id)
  qed (use Msg assms in \<open>simp_all add: getState_eq Let_def ctx_maybeSendNext\<close>)
next
  case (Timer d)
  with assms show ?thesis
    by (simp add: ctx_maybeSendNext)
qed

lemma run_keeps_head:
  "sending (ctx t w) \<Longrightarrow> queue (ctx t w) \<noteq> [] \<Longrightarrow> item_id (hd (queue (ctx t w))) = h \<Longrightarrow>
   list_all (\<lambda>tr. \<not> is_outcome tr \<and> \<not> removes_id h tr) trs \<Longrightarrow>
   sending (ctx t (run t trs w)) \<and> queue (ctx t (run t trs w)) \<noteq> []
   \<and> item_id (hd (queue (ctx t (run t trs w)))) = h
   \<and> dispatched (run t trs w) = dispatched w"
proof (induction trs arbitrary: w)
  case Nil
  then show ?case by simp
next
  case (Cons tr trs)
  from Cons.prems have tr: "\<not> is_outcome tr" "\<not> removes_id (item_id (hd (queue (ctx t w)))) tr"
    by simp_all
  from Cons.prems(1) tr(1) have s: "sending (ctx t (fire t tr w))"
    and d: "dispatched (fire t tr w) = dispatched w"
    by (simp_all add: fire_while_sending)
  from fire_keeps_head [OF Cons.prems(1,2) tr] Cons.prems(3)
  have q: "queue (ctx t (fire t tr w)) \<noteq> []" "item_id (hd (queue (ctx t (fire t tr w)))) = h"
    by simp_all
  from Cons.IH [OF s q] Cons.prems(4) d show ?case by simp
qed

text \<open>
  Claim C1, as amended. \<open>maybeSendNext\<close> sends \<open>SEND_TEXT\<close> exactly when the queue is
  non-empty and \<open>paused\<close>, \<open>pageBusy\<close> and \<open>sending\<close> are all false; the message then
  carries the text and id of the head item, nothing else is sent, and \<open>sending\<close> is true
  once the message is handed over (it is reset when the handoff fails). Otherwise nothing
  is sent and the context is unchanged. No trigger sends more than one \<open>SEND_TEXT\<close>, and
  once \<open>sending\<close> is true it stays true and no \<open>SEND_TEXT\<close> is sent, whatever triggers
  follow, until an outcome (\<open>SUBMITTED\<close>, \<open>ERROR\<close>) arrives: at most one item is in
  flight. The item in flight is the head when it is sent, and the head keeps its id for as
  long as no outcome arrives and no \<open>QUEUE_REMOVE\<close> of that id or \<open>QUEUE_CLEAR\<close> is
  processed.
\<close>

theorem maybeSendNext_dispatches_head:
  fixes w t d tr trs
  defines "s \<equiv> ctx t w" and "w' \<equiv> maybeSendNext d t w"
    and "sent \<equiv> TabsSendMessage t
                  (SEND_TEXT (item_text (hd (queue (ctx t w)))) (item_id (hd (queue (ctx t w)))))"
  shows "(if queue s \<noteq> [] \<and> \<not> paused s \<and> \<not> pageBusy s \<and> \<not> sending s
          then effects w' = effects w @ [sent] \<and> ctx t w' = s\<lparr>sending := d\<rparr>
          else effects w' = effects w \<and> ctx t w' = s)
       \<and> storage w' = storage w
       \<and> length (dispatched (fire t tr w)) \<le> Suc (length (dispatched w))
       \<and> (sending s \<and> list_all (\<lambda>tr. \<not> is_outcome tr) trs \<longrightarrow>
            dispatched (run t trs w) = dispatched w \<and> sending (ctx t (run t trs w)))
       \<and> (queue s \<noteq> [] \<and> \<not> paused s \<and> \<not> pageBusy s \<and> \<not> sending s \<and> d
          \<and> list_all (\<lambda>tr. \<not> is_outcome tr \<and> \<not> removes_id (item_id (hd (queue s))) tr) trs \<longrightarrow>
            sending (ctx t (run t trs w'))
          \<and> queue (ctx t (run t trs w')) \<noteq> []
          \<and> item_id (hd (queue (ctx t (run t trs w')))) = item_id (hd (queue s))
          \<and> dispatched (run t trs w') = dispatched w @ [sent])"
proof -
  let ?el = "queue s \<noteq> [] \<and> \<not> paused s \<and> \<not> pageBusy s \<and> \<not> sending s"
  have first: "if ?el then effects w' = effects w @ [sent] \<and> ctx t w' = s\<lparr>sending := d\<rparr>
      else effects w' = effects w \<and> ctx t w' = s"
    unfolding s_def w'_def sent_def
    by (simp add: effects_maybeSendNext ctx_maybeSendNext)
  have last: "sending (ctx t (run t trs w'))
        \<and> queue (ctx t (run t trs w')) \<noteq> []
        \<and> item_id (hd (queue (ctx t (run t trs w')))) = item_id (hd (queue s))
        \<and> dispatched (run t trs w') = dispatched w @ [sent]"
    if el: ?el and d: d
      and trs: "list_all (\<lambda>tr. \<not> is_outcome tr \<and> \<not> removes_id (item_id (hd (queue s))) tr) trs"
  proof -
    from first el d have c: "ctx t w' = s\<lparr>sending := True\<rparr>" and e: "effects w' = effects w @ [sent]"
      by simp_all
    from c el have "sending (ctx t w')" "queue (ctx t w') \<noteq> []"
      "item_id (hd (queue (ctx t w'))) = item_id (hd (queue s))"
      by simp_all
    from run_keeps_head [OF this trs] e show ?thesis
      by (simp add: dispatched_def sent_def)
  qed
  from first last run_while_sending [of t w trs] fire_dispatches_at_most_one [of t tr w]
  show ?thesis
    unfolding s_def w'_def by (simp add: s_def w'_def)
qed


theorem maybeSendNext_dispatches_head_witness:
  "effects (maybeSendNext True 7 idle_xy)
     = [TabsSendMessage 7 (SEND_TEXT (lit ''first'') (lit ''0a1b''))]
   \<and> sending (ctx 7 (maybeSendNext True 7 idle_xy))
   \<and> effects (maybeSendNext True 7 flying_xy) = []
   \<and> dispatched (run 7
        [Msg (PAGE_STATE (JBool False)) bytes_a True, Msg RESUME bytes_a True, Timer True]
        flying_xy) = []
   \<and> sending (ctx 7 (run 7
        [Msg (PAGE_STATE (JBool False)) bytes_a True, Msg RESUME bytes_a True, Timer True]
        flying_xy))
   \<and> item_id (hd (queue (ctx 7 (run 7
        [Msg (QUEUE_ADD (JStr (lit ''third''))) bytes_a True,
         Msg (QUEUE_REMOVE (JStr (lit ''2c3d''))) bytes_a True,
         Msg (QUEUE_UPDATE (JStr (lit ''0a1b'')) (JStr (lit ''edited''))) bytes_a True]
        (maybeSendNext True 7 idle_xy))))) = lit ''0a1b''
   \<and> dispatched (run 7
        [Msg (QUEUE_ADD (JStr (lit ''third''))) bytes_a True,
         Msg (QUEUE_REMOVE (JStr (lit ''2c3d''))) bytes_a True,
         Msg (QUEUE_UPDATE (JStr (lit ''0a1b'')) (JStr (lit ''edited''))) bytes_a True]
        (maybeSendNext True 7 idle_xy))
     = [TabsSendMessage 7 (SEND_TEXT (lit ''first'') (lit ''0a1b''))]"
proof -
  have c: "ctx 7 idle_xy
      = \<lparr>queue = [item_x, item_y], paused = False, pageBusy = False, sending = False\<rparr>"
    "ctx 7 flying_xy
      = \<lparr>queue = [item_x, item_y], paused = False, pageBusy = True, sending = True\<rparr>"
    by (simp_all add: idle_xy_def flying_xy_def)
  have e: "effects idle_xy = []" "effects flying_xy = []"
    "dispatched idle_xy = []" "dispatched flying_xy = []"
    by (simp_all add: idle_xy_def flying_xy_def dispatched_def)
  have ne: "lit ''2c3d'' \<noteq> lit ''0a1b''"
    by (simp add: lit_def)
  show ?thesis
    using maybeSendNext_dispatches_head
        [where t = 7 and w = idle_xy and d = True and tr = "Timer True" and trs =
           "[Msg (QUEUE_ADD (JStr (lit ''third''))) bytes_a True,
             Msg (QUEUE_REMOVE (JStr (lit ''2c3d''))) bytes_a True,
             Msg (QUEUE_UPDATE (JStr (lit ''0a1b'')) (JStr (lit ''edited''))) bytes_a True]"]
      maybeSendNext_dispatches_head
        [where t = 7 and w = flying_xy and d = True and tr = "Timer True" and trs =
           "[Msg (PAGE_STATE (JBool False)) bytes_a True, Msg RESUME bytes_a True, Timer True]"]
    by (simp add: c e ne item_x_def item_y_def del: run.simps)
qed

text \<open>
  The claim as stated fails in its last part: after two enqueues on a fresh context the
  first item is in flight; removing it leaves \<open>sending\<close> true while the head of the
  queue is the second item, which was never sent.
\<close>

theorem removed_head_in_flight_counterexample:
  "sending (ctx 7 (run 7
      [Msg (QUEUE_ADD (JStr (lit ''a''))) bytes_a True,
       Msg (QUEUE_ADD (JStr (lit ''b''))) bytes_b True,
       Msg (QUEUE_REMOVE (JStr (randomId bytes_a 8))) bytes_a True] initial))
   \<and> dispatched (run 7
      [Msg (QUEUE_ADD (JStr (lit ''a''))) bytes_a True,
       Msg (QUEUE_ADD (JStr (lit ''b''))) bytes_b True,
       Msg (QUEUE_REMOVE (JStr (randomId bytes_a 8))) bytes_a True] initial)
     = [TabsSendMessage 7 (SEND_TEXT (lit ''a'') (randomId bytes_a 8))]
   \<and> map item_id (queue (ctx 7 (run 7
      [Msg (QUEUE_ADD (JStr (lit ''a''))) bytes_a True,
       Msg (QUEUE_ADD (JStr (lit ''b''))) bytes_b True,
       Msg (QUEUE_REMOVE (JStr (randomId bytes_a 8))) bytes_a True] initial)))
     = [randomId bytes_b 8]
   \<and> randomId bytes_a 8 \<noteq> randomId bytes_b 8"
proof -
  have t: "trim (lit ''a'') = lit ''a''" "trim (lit ''b'') = lit ''b''"
    by (simp_all add: trim_def lit_def is_js_space_def)
  note ne = bytes_a_b_differ
  have ne': "randomId bytes_b 8 \<noteq> randomId bytes_a 8"
    using ne by simp
  show ?thesis
    by (simp add: getState_eq Let_def ctx_maybeSendNext effects_maybeSendNext ctx_initial
        dispatched_def nullish_coalesce_def t ne ne')
qed

section \<open>\<open>sending\<close> and the emptiness of the queue\<close>







lemma calm_without_removal: "list_all (\<lambda>tr. \<not> is_removal tr) trs \<Longrightarrow> calm t trs w"
proof (induction trs arbitrary: w)
  case Nil
  show ?case by simp
next
  case (Cons tr trs)
  from Cons.prems have "\<not> is_removal tr" by simp
  then have "\<not> empties tr q" for q
    by (induction tr q rule: empties.induct) simp_all
  with Cons show ?case by simp
qed





section \<open>Removing an item\<close>

text \<open>
  Claim C4, as amended. \<open>QUEUE_REMOVE\<close> keeps the items whose id differs from the given
  one, stores and broadcasts the result, and always answers \<open>{ ok: true }\<close>, whether or
  not an item had that id; when none had it, the queue is unchanged.
\<close>

theorem remove_always_ok:
  fixes w t i a d
  defines "s \<equiv> ctx t w" and "w' \<equiv> handle (QUEUE_REMOVE i) t a d w"
  shows "queue (ctx t w') = filter (\<lambda>it. JStr (item_id it) \<noteq> i) (queue s)
       \<and> (i \<notin> JStr ` item_id ` set (queue s) \<longrightarrow> queue (ctx t w') = queue s)
       \<and> ctx t w' = s\<lparr>queue := queue (ctx t w')\<rparr>
       \<and> effects w' = effects w @
            [StorageSet (keyFor t)
               \<lparr>saved_queue = Some (queue (ctx t w')), saved_paused = Some (paused s)\<rparr>,
             TabsSendMessage t (QUEUE_UPDATED (queue (ctx t w')) (paused s)),
             SendResponse Ok]"
  unfolding s_def w'_def
  by (auto simp add: getState_eq Let_def str_strict_eq_iff filter_id_conv eq_commute [of i]
      intro!: filter_cong)

theorem remove_always_ok_witness:
  "queue (ctx 7 (handle (QUEUE_REMOVE (JStr (lit ''ffff''))) 7 bytes_a True idle_xy))
     = [item_x, item_y]
   \<and> queue (ctx 7 (handle (QUEUE_REMOVE (JStr (lit ''0a1b''))) 7 bytes_a True idle_xy))
     = [item_y]
   \<and> last (effects (handle (QUEUE_REMOVE (JStr (lit ''0a1b''))) 7 bytes_a True idle_xy))
     = SendResponse Ok"
  using remove_always_ok
      [where t = 7 and w = idle_xy and i = "JStr (lit ''ffff'')" and a = bytes_a and d = True]
    remove_always_ok
      [where t = 7 and w = idle_xy and i = "JStr (lit ''0a1b'')" and a = bytes_a and d = True]
  by (simp add: getState_eq Let_def idle_xy_def item_x_def item_y_def lit_def)

text \<open>
  The claim as stated fails: removing an id that no item has is answered with
  \<open>{ ok: true }\<close>, not with \<open>not_found\<close>.
\<close>

theorem remove_absent_counterexample:
  "item_id item_x \<noteq> lit ''ffff'' \<and> item_id item_y \<noteq> lit ''ffff''
   \<and> effects (handle (QUEUE_REMOVE (JStr (lit ''ffff''))) 7 bytes_a True idle_xy)
      = [StorageSet (keyFor 7)
           \<lparr>saved_queue = Some [item_x, item_y], saved_paused = Some False\<rparr>,
         TabsSendMessage 7 (QUEUE_UPDATED [item_x, item_y] False),
         SendResponse Ok]"
  by (simp add: getState_eq Let_def idle_xy_def item_x_def item_y_def lit_def)

section \<open>Failed dispatches\<close>

lemma timers_fire:
  "timers (fire t tr w) =
     timers w @ (if is_error tr then [SetTimeout_maybeSendNext t 400] else [])"
proof (cases tr)
  case (Msg m a d)
  then show ?thesis
    by (cases m) (simp_all add: getState_eq Let_def timers_def effects_maybeSendNext)
next
  case (Timer d)
  then show ?thesis
    by (simp add: timers_def effects_maybeSendNext)
qed

text \<open>
  Claim C6. When the handoff of \<open>SEND_TEXT\<close> fails, \<open>maybeSendNext\<close> leaves the context
  as it found it: \<open>sending\<close> is false again and the queue is not touched, and no timer is
  armed. On \<open>ERROR\<close> the handler sets \<open>sending\<close> to false, leaves the queue (so the
  failed item stays at the head) and the storage alone, broadcasts, warns, and arms one
  \<open>maybeSendNext\<close> after 400 ms. No other trigger arms a timer; in particular a failed
  handoff does not.
\<close>

theorem dispatch_failure_keeps_queue:
  fixes w t e a d tr
  defines "s \<equiv> ctx t w"
    and "w1 \<equiv> maybeSendNext False t w"
    and "w2 \<equiv> handle (ERROR e) t a d w"
  shows "ctx t w1 = s
       \<and> (queue s \<noteq> [] \<and> \<not> paused s \<and> \<not> pageBusy s \<and> \<not> sending s \<longrightarrow>
            \<not> sending (ctx t w1) \<and> queue (ctx t w1) = queue s
          \<and> effects w1 = effects w @
               [TabsSendMessage t
                  (SEND_TEXT (item_text (hd (queue s))) (item_id (hd (queue s))))])
       \<and> timers w1 = timers w
       \<and> ctx t w2 = s\<lparr>sending := False\<rparr>
       \<and> queue (ctx t w2) = queue s
       \<and> storage w2 = storage w
       \<and> effects w2 = effects w @
            [TabsSendMessage t (QUEUE_UPDATED (queue s) (paused s)),
             ConsoleWarn e,
             SetTimeout_maybeSendNext t 400]
       \<and> timers (fire t tr w) =
            timers w @ (if is_error tr then [SetTimeout_maybeSendNext t 400] else [])"
  unfolding s_def w1_def w2_def
  using timers_fire [of t tr w] timers_fire [of t "Timer False" w]
  by (simp add: getState_eq Let_def ctx_maybeSendNext effects_maybeSendNext)

theorem dispatch_failure_keeps_queue_witness:
  "ctx 7 (maybeSendNext False 7 idle_xy) = ctx 7 idle_xy
   \<and> effects (maybeSendNext False 7 idle_xy)
       = [TabsSendMessage 7 (SEND_TEXT (lit ''first'') (lit ''0a1b''))]
   \<and> queue (ctx 7 (handle (ERROR (JStr (lit ''boom''))) 7 bytes_a True flying_xy))
       = [item_x, item_y]
   \<and> \<not> sending (ctx 7 (handle (ERROR (JStr (lit ''boom''))) 7 bytes_a True flying_xy))
   \<and> timers (handle (ERROR (JStr (lit ''boom''))) 7 bytes_a True flying_xy)
       = [SetTimeout_maybeSendNext 7 400]"
  using dispatch_failure_keeps_queue
      [where t = 7 and w = idle_xy and e = "JStr (lit ''boom'')" and a = bytes_a and d = True
         and tr = "Timer False"]
    dispatch_failure_keeps_queue
      [where t = 7 and w = flying_xy and e = "JStr (lit ''boom'')" and a = bytes_a and d = True
         and tr = "Msg (ERROR (JStr (lit ''boom''))) bytes_a True"]
  by (simp add: idle_xy_def flying_xy_def item_x_def item_y_def timers_def)

section \<open>Busy and idle reports\<close>

text \<open>
  Claim C7. \<open>PAGE_STATE\<close> stores the truth value of \<open>busy\<close> in \<open>pageBusy\<close>. It calls
  \<open>maybeSendNext\<close> (on the updated context) exactly when the stored value was true and
  the new one is false; in every other case only \<open>pageBusy\<close> changes and nothing is
  sent. So a \<open>SEND_TEXT\<close> comes out of it only on a change from busy to idle.
\<close>

theorem page_state_idle_transition:
  fixes w t b a d
  defines "s \<equiv> ctx t w" and "w' \<equiv> handle (PAGE_STATE b) t a d w"
  shows "pageBusy (ctx t w') = truthy b
       \<and> (if pageBusy s \<and> \<not> truthy b
          then w' = maybeSendNext d t (put t (s\<lparr>pageBusy := False\<rparr>) w)
          else ctx t w' = s\<lparr>pageBusy := truthy b\<rparr> \<and> effects w' = effects w)
       \<and> storage w' = storage w
       \<and> (dispatched w' \<noteq> dispatched w \<longrightarrow> pageBusy s \<and> \<not> truthy b)"
  unfolding s_def w'_def
  by (auto simp add: getState_eq Let_def ctx_maybeSendNext dispatched_def)

theorem page_state_idle_transition_witness:
  "dispatched (handle (PAGE_STATE (JBool False)) 7 bytes_a True
      (put 7 \<lparr>queue = [item_x, item_y], paused = False, pageBusy = True, sending = False\<rparr> initial))
     = [TabsSendMessage 7 (SEND_TEXT (lit ''first'') (lit ''0a1b''))]
   \<and> dispatched (handle (PAGE_STATE (JBool False)) 7 bytes_a True idle_xy) = []
   \<and> dispatched (handle (PAGE_STATE (JBool True)) 7 bytes_a True idle_xy) = []
   \<and> pageBusy (ctx 7 (handle (PAGE_STATE (JBool True)) 7 bytes_a True idle_xy))"
  using page_state_idle_transition
      [where t = 7 and b = "JBool False" and a = bytes_a and d = True and
         w = "put 7 \<lparr>queue = [item_x, item_y], paused = False, pageBusy = True, sending = False\<rparr> initial"]
    page_state_idle_transition
      [where t = 7 and b = "JBool False" and a = bytes_a and d = True and w = idle_xy]
    page_state_idle_transition
      [where t = 7 and b = "JBool True" and a = bytes_a and d = True and w = idle_xy]
  by (simp add: idle_xy_def item_x_def item_y_def dispatched_def effects_maybeSendNext)

section \<open>Persisting and reloading\<close>

text \<open>
  Claim C9. \<open>save\<close> stores under the tab's key a record of exactly the queue and
  \<open>paused\<close> of the context. After a restart, \<open>getState\<close> builds from it a context with
  the same queue, in the same order, and the same \<open>paused\<close>, whose \<open>pageBusy\<close> and
  \<open>sending\<close> are false whatever they were before.
\<close>

theorem persist_reload_roundtrip:
  fixes w t
  defines "s \<equiv> ctx t w" and "s' \<equiv> ctx t (restart (save t w))"
  shows "queue s' = queue s \<and> paused s' = paused s \<and> \<not> pageBusy s' \<and> \<not> sending s'
       \<and> storage (save t w) (keyFor t)
           = Some \<lparr>saved_queue = Some (queue s), saved_paused = Some (paused s)\<rparr>"
proof -
  have "storage (restart (save t w)) (keyFor t)
          = Some \<lparr>saved_queue = Some (queue s), saved_paused = Some (paused s)\<rparr>"
    and "tabState (restart (save t w)) t = None"
    by (simp_all add: restart_def s_def)
  then have "s' = \<lparr>queue = queue s, paused = paused s, pageBusy = False, sending = False\<rparr>"
    unfolding s'_def ctx_def getState_def by (simp add: Let_def)
  then show ?thesis by (simp add: s_def)
qed

theorem persist_reload_roundtrip_witness:
  "queue (ctx 7 (restart (save 7 flying_xy))) = [item_x, item_y]
   \<and> \<not> paused (ctx 7 (restart (save 7 flying_xy)))
   \<and> \<not> pageBusy (ctx 7 (restart (save 7 flying_xy)))
   \<and> \<not> sending (ctx 7 (restart (save 7 flying_xy)))
   \<and> sending (ctx 7 flying_xy) \<and> pageBusy (ctx 7 flying_xy)"
  using persist_reload_roundtrip [where t = 7 and w = flying_xy]
  by (simp add: flying_xy_def)

section \<open>Enqueueing and the order of the queue\<close>

lemma update_keeps_ids: "map item_id (q[k := (q ! k)\<lparr>item_text := x\<rparr>]) = map item_id q"
  by (cases "k < length q") (simp_all add: map_update list_update_same_conv list_update_beyond)

lemma subseq_shift: "subseq (shift xs) xs"
  by (cases xs) (simp_all add: list_emb_Cons)

lemma queue_add:
  "queue (ctx t (handle (QUEUE_ADD x) t a d w)) =
     queue (ctx t w) @
       [\<lparr>item_id = randomId a 8, item_text = trim (js_String (nullish_coalesce x (JStr [])))\<rparr>]"
  by (simp add: getState_eq Let_def ctx_maybeSendNext)

lemma fire_ids_subseq:
  "subseq (map item_id (queue (ctx t (fire t tr w))))
          (map item_id (queue (ctx t w)) @ map item_id (enqueued [tr]))"
proof (cases tr)
  case (Msg m a d)
  then show ?thesis
  proof (cases m)
    case (QUEUE_REMOVE i)
    with Msg show ?thesis
      by (simp add: getState_eq Let_def subseq_map)
  next
    case (SUBMITTED i)
    with Msg show ?thesis
      by (simp add: getState_eq Let_def subseq_map subseq_shift)
  qed (simp_all add: getState_eq Let_def ctx_maybeSendNext update_keeps_ids)
next
  case (Timer d)
  then show ?thesis
    by (simp add: ctx_maybeSendNext)
qed

lemma fire_ids_exact:
  "\<not> takes_out tr \<Longrightarrow>
   map item_id (queue (ctx t (fire t tr w))) =
     map item_id (queue (ctx t w)) @ map item_id (enqueued [tr])"
proof (cases tr)
  case (Msg m a d)
  assume "\<not> takes_out tr"
  with Msg show ?thesis
    by (cases m) (simp_all add: getState_eq Let_def ctx_maybeSendNext update_keeps_ids)
next
  case (Timer d)
  then show ?thesis
    by (simp add: ctx_maybeSendNext)
qed

lemma enqueued_Cons: "enqueued (tr # trs) = enqueued [tr] @ enqueued trs"
proof (cases tr)
  case (Msg m a d)
  then show ?thesis by (cases m) simp_all
next
  case (Timer d)
  then show ?thesis by simp
qed

lemma run_ids_subseq:
  "subseq (map item_id (queue (ctx t (run t trs w))))
          (map item_id (queue (ctx t w)) @ map item_id (enqueued trs))"
proof (induction trs arbitrary: w)
  case Nil
  show ?case by simp
next
  case (Cons tr trs)
  have "subseq (map item_id (queue (ctx t (run t trs (fire t tr w)))))
          (map item_id (queue (ctx t (fire t tr w))) @ map item_id (enqueued trs))"
    by (rule Cons.IH)
  also have "subseq (map item_id (queue (ctx t (fire t tr w))) @ map item_id (enqueued trs))
          ((map item_id (queue (ctx t w)) @ map item_id (enqueued [tr])) @ map item_id (enqueued trs))"
    by (intro list_emb_append_mono fire_ids_subseq subseq_order.refl)
  finally show ?case
    by (simp add: enqueued_Cons [of tr trs])
qed

lemma run_ids_exact:
  "list_all (\<lambda>tr. \<not> takes_out tr) trs \<Longrightarrow>
   map item_id (queue (ctx t (run t trs w))) =
     map item_id (queue (ctx t w)) @ map item_id (enqueued trs)"
proof (induction trs arbitrary: w)
  case Nil
  show ?case by simp
next
  case (Cons tr trs)
  then have "map item_id (queue (ctx t (run t trs (fire t tr w)))) =
      map item_id (queue (ctx t (fire t tr w))) @ map item_id (enqueued trs)"
    by simp
  with Cons.prems show ?case
    by (simp add: fire_ids_exact enqueued_Cons [of tr trs])
qed


lemma subseq_distinct: "subseq xs ys \<Longrightarrow> distinct ys \<Longrightarrow> distinct xs"
proof (induction rule: list_emb.induct)
  case (list_emb_Nil ys)
  show ?case by simp
next
  case (list_emb_Cons xs ys y)
  then show ?case by simp
next
  case (list_emb_Cons2 x y xs ys)
  then have "x \<notin> set xs"
    using list_emb_set [of "(=)" xs ys x] by auto
  with list_emb_Cons2 show ?case by simp
qed

lemma randomId_draw: "randomId a 8 = randomId b 8 \<longleftrightarrow> map a [0..<8] = map b [0..<8]"
  by (auto simp add: randomId_inj)

lemma enqueued_id_draw:
  "it \<in> set (enqueued trs) \<Longrightarrow> item_id it = randomId a 8 \<Longrightarrow> map a [0..<8] \<in> set (draws trs)"
  by (induction trs rule: enqueued.induct) (auto simp: randomId_draw simp del: upt_Suc)

lemma enqueued_ids_distinct: "distinct (draws trs) \<Longrightarrow> distinct (map item_id (enqueued trs))"
  by (induction trs rule: enqueued.induct)
    (auto dest: enqueued_id_draw [OF _ sym] simp del: upt_Suc)

lemma run_ids_distinct:
  assumes "queue (ctx t w) = []" and "distinct (draws trs)"
  shows "distinct (map item_id (queue (ctx t (run t trs w))))"
proof -
  have "subseq (map item_id (queue (ctx t (run t trs w)))) (map item_id (enqueued trs))"
    using run_ids_subseq [of t trs w] assms(1) by simp
  with enqueued_ids_distinct [OF assms(2)] show ?thesis
    by (rule subseq_distinct [rotated])
qed


lemma draw_fresh:
  assumes "\<forall>it \<in> set q. \<exists>c. item_id it = randomId c 8 \<and> (\<exists>i < 8. a i \<noteq> c i)"
  shows "randomId a 8 \<notin> item_id ` set q"
proof
  assume "randomId a 8 \<in> item_id ` set q"
  then obtain it where it: "it \<in> set q" "item_id it = randomId a 8"
    by auto
  with assms obtain c where "item_id it = randomId c 8" "\<exists>i < 8. a i \<noteq> c i"
    by blast
  with it(2) show False
    by (auto simp add: randomId_inj)
qed

text \<open>
  Claim C5, as amended. \<open>QUEUE_ADD\<close> puts one item at the end of the queue: its id is the
  hex rendering of the eight random bytes drawn for this call, and its text is the given
  text with nothing but whitespace removed from both ends. Two draws give the same id only
  if they agree on all eight bytes, so the new id differs from every queued id that came
  from a different draw, and in every run from an empty queue in which no two enqueues
  draw the same bytes the ids in the queue are pairwise distinct. Over any run of
  triggers the ids in the queue are a subsequence of the ids queued at the start followed
  by the ids enqueued, in the order of the enqueues; when no trigger of the run takes an
  item out (edits allowed), they are exactly that list.
\<close>

theorem enqueue_appends_in_order:
  fixes w t x a d b trs
  defines "s \<equiv> ctx t w"
    and "raw \<equiv> js_String (nullish_coalesce x (JStr []))"
    and "new \<equiv> \<lparr>item_id = randomId a 8,
                 item_text = trim (js_String (nullish_coalesce x (JStr [])))\<rparr>"
  shows "queue (ctx t (handle (QUEUE_ADD x) t a d w)) = queue s @ [new]
       \<and> (\<exists>pre post. raw = pre @ item_text new @ post
             \<and> list_all is_js_space pre \<and> list_all is_js_space post)
       \<and> (item_text new = []
          \<or> \<not> is_js_space (hd (item_text new)) \<and> \<not> is_js_space (last (item_text new)))
       \<and> (randomId a 8 = randomId b 8 \<longleftrightarrow> (\<forall>i < 8. a i = b i))
       \<and> ((\<forall>it \<in> set (queue s). \<exists>c. item_id it = randomId c 8 \<and> (\<exists>i < 8. a i \<noteq> c i)) \<longrightarrow>
            randomId a 8 \<notin> item_id ` set (queue s))
       \<and> (queue s = [] \<and> distinct (draws trs) \<longrightarrow>
            distinct (map item_id (queue (ctx t (run t trs w)))))
       \<and> subseq (map item_id (queue (ctx t (run t trs w))))
            (map item_id (queue s) @ map item_id (enqueued trs))
       \<and> (list_all (\<lambda>tr. \<not> takes_out tr) trs \<longrightarrow>
            map item_id (queue (ctx t (run t trs w)))
              = map item_id (queue s) @ map item_id (enqueued trs))"
proof -
  have "queue (ctx t (handle (QUEUE_ADD x) t a d w)) = queue s @ [new]"
    unfolding s_def new_def by (rule queue_add)
  moreover have "\<exists>pre post. raw = pre @ item_text new @ post
      \<and> list_all is_js_space pre \<and> list_all is_js_space post"
    using trim_parts [of raw] by (simp add: new_def raw_def)
  moreover have "item_text new = []
      \<or> \<not> is_js_space (hd (item_text new)) \<and> \<not> is_js_space (last (item_text new))"
    using trim_ends [of raw] by (auto simp: new_def raw_def)
  moreover have "randomId a 8 = randomId b 8 \<longleftrightarrow> (\<forall>i < 8. a i = b i)"
    by (rule randomId_inj)
  moreover have
    "(\<forall>it \<in> set (queue s). \<exists>c. item_id it = randomId c 8 \<and> (\<exists>i < 8. a i \<noteq> c i)) \<longrightarrow>
      randomId a 8 \<notin> item_id ` set (queue s)"
    using draw_fresh [of "queue s" a] by blast
  moreover have "queue s = [] \<and> distinct (draws trs) \<longrightarrow>
      distinct (map item_id (queue (ctx t (run t trs w))))"
    unfolding s_def by (simp add: run_ids_distinct)
  moreover have "subseq (map item_id (queue (ctx t (run t trs w))))
      (map item_id (queue s) @ map item_id (enqueued trs))"
    unfolding s_def by (rule run_ids_subseq)
  moreover have "list_all (\<lambda>tr. \<not> takes_out tr) trs \<longrightarrow>
      map item_id (queue (ctx t (run t trs w)))
        = map item_id (queue s) @ map item_id (enqueued trs)"
    unfolding s_def by (simp add: run_ids_exact)
  ultimately show ?thesis by blast
qed

theorem enqueue_appends_in_order_witness:
  "queue (ctx 7 (handle (QUEUE_ADD (JStr (lit ''  third one ''))) 7 bytes_a True idle_xy))
     = [item_x, item_y, \<lparr>item_id = randomId bytes_a 8, item_text = lit ''third one''\<rparr>]
   \<and> randomId bytes_a 8 \<noteq> randomId bytes_b 8
   \<and> map item_id (queue (ctx 7 (run 7
        [Msg (QUEUE_ADD (JStr (lit ''p''))) bytes_a True,
         Msg (QUEUE_UPDATE (JStr (lit ''2c3d'')) (JStr (lit ''q''))) bytes_a True,
         Msg (QUEUE_ADD Undefined) bytes_b True] idle_xy)))
     = [lit ''0a1b'', lit ''2c3d'', randomId bytes_a 8, randomId bytes_b 8]
   \<and> distinct (map item_id (queue (ctx 7 (run 7
        [Msg (QUEUE_ADD (JStr (lit ''p''))) bytes_a True,
         Msg (QUEUE_UPDATE (JStr (lit ''2c3d'')) (JStr (lit ''q''))) bytes_a True,
         Msg (QUEUE_ADD Undefined) bytes_b True] initial))))
   \<and> map item_id (queue (ctx 7 once_a)) = [randomId bytes_a 8]
   \<and> randomId bytes_b 8 \<notin> item_id ` set (queue (ctx 7 once_a))"
proof -
  have ne: "bytes_a 0 \<noteq> bytes_b 0"
    by (simp add: bytes_a_def bytes_b_def)
  have once: "map item_id (queue (ctx 7 once_a)) = [randomId bytes_a 8]"
    by (simp add: once_a_def onMessage_def getState_eq Let_def ctx_maybeSendNext ctx_initial)
  then obtain it where it: "queue (ctx 7 once_a) = [it]" "item_id it = randomId bytes_a 8"
    by auto
  from ne have "\<exists>i < 8. bytes_b i \<noteq> bytes_a i"
    by (metis zero_less_numeral)
  with it have "\<forall>it \<in> set (queue (ctx 7 once_a)).
      \<exists>c. item_id it = randomId c 8 \<and> (\<exists>i < 8. bytes_b i \<noteq> c i)"
    by auto
  with enqueue_appends_in_order
      [where t = 7 and w = once_a and x = Undefined and a = bytes_b and d = True
         and b = bytes_a and trs = "[]"]
  have fresh: "randomId bytes_b 8 \<notin> item_id ` set (queue (ctx 7 once_a))"
    by blast
  have ctx: "ctx 7 idle_xy
      = \<lparr>queue = [item_x, item_y], paused = False, pageBusy = False, sending = False\<rparr>"
    by (simp add: idle_xy_def)
  have tr: "trim (lit ''  third one '') = lit ''third one''"
    by (simp add: trim_def lit_def is_js_space_def)
  have keep: "list_all (\<lambda>tr. \<not> takes_out tr)
        [Msg (QUEUE_ADD (JStr (lit ''p''))) bytes_a True,
         Msg (QUEUE_UPDATE (JStr (lit ''2c3d'')) (JStr (lit ''q''))) bytes_a True,
         Msg (QUEUE_ADD Undefined) bytes_b True]"
    by simp
  from ne have diff: "\<not> (\<forall>i < 8. bytes_a i = bytes_b i)"
    by (metis zero_less_numeral)
  from ne have "map bytes_a [0..<8] \<noteq> map bytes_b [0..<8]"
    by (simp add: upt_conv_Cons del: upt_Suc)
  then have dr: "distinct (draws
        [Msg (QUEUE_ADD (JStr (lit ''p''))) bytes_a True,
         Msg (QUEUE_UPDATE (JStr (lit ''2c3d'')) (JStr (lit ''q''))) bytes_a True,
         Msg (QUEUE_ADD Undefined) bytes_b True])"
    by (simp del: upt_Suc)
  show ?thesis
    using enqueue_appends_in_order
        [where t = 7 and w = idle_xy and x = "JStr (lit ''  third one '')" and a = bytes_a
           and d = True and b = bytes_b and trs =
           "[Msg (QUEUE_ADD (JStr (lit ''p''))) bytes_a True,
             Msg (QUEUE_UPDATE (JStr (lit ''2c3d'')) (JStr (lit ''q''))) bytes_a True,
             Msg (QUEUE_ADD Undefined) bytes_b True]"]
      enqueue_appends_in_order
        [where t = 7 and w = initial and x = "JStr (lit ''  third one '')" and a = bytes_a
           and d = True and b = bytes_b and trs =
           "[Msg (QUEUE_ADD (JStr (lit ''p''))) bytes_a True,
             Msg (QUEUE_UPDATE (JStr (lit ''2c3d'')) (JStr (lit ''q''))) bytes_a True,
             Msg (QUEUE_ADD Undefined) bytes_b True]"]
      keep diff dr once fresh
    by (simp add: ctx ctx_initial tr nullish_coalesce_def item_x_def item_y_def
        del: run.simps draws.simps upt_Suc)
qed

text \<open>
  The claim as stated fails in the word fresh: the id is not compared with the ids in the
  queue, so two enqueues with the same draw queue two items under one id.
\<close>

theorem repeated_draw_counterexample:
  "queue (ctx 7 (run 7
      [Msg (QUEUE_ADD (JStr (lit ''one''))) bytes_a True,
       Msg (QUEUE_ADD (JStr (lit ''two''))) bytes_a True] initial))
     = [\<lparr>item_id = randomId bytes_a 8, item_text = lit ''one''\<rparr>,
        \<lparr>item_id = randomId bytes_a 8, item_text = lit ''two''\<rparr>]"
proof -
  have t: "trim (lit ''one'') = lit ''one''" "trim (lit ''two'') = lit ''two''"
    by (simp_all add: trim_def lit_def is_js_space_def)
  show ?thesis
    by (simp add: getState_eq Let_def ctx_maybeSendNext ctx_initial nullish_coalesce_def t)
qed

text \<open>
  Claim C10, as amended. Whatever the \<open>text\<close> field of a \<open>QUEUE_ADD\<close> holds (any
  string, a missing or null field, or any other value that \<open>String\<close> renders), the
  listener, given a tab to address, appends one item, stores and broadcasts the longer
  queue and answers \<open>{ ok: true, id }\<close> with the id of the new item; that is the only
  response. The new item's text is empty when the field is missing or null, and when it is
  a string of whitespace only. The id is the sixteen hex digits of the eight bytes drawn
  for this call; two draws give the same id only if they agree on all eight bytes, so the
  id differs from every queued id that came from a different draw.
\<close>

theorem enqueue_never_rejects:
  fixes w t x a d b
  defines "s \<equiv> ctx t w"
    and "w' \<equiv> onMessage (QUEUE_ADD x) (Some t) a d w"
    and "new \<equiv> \<lparr>item_id = randomId a 8,
                 item_text = trim (js_String (nullish_coalesce x (JStr [])))\<rparr>"
  assumes "t \<noteq> 0"
  shows "queue (ctx t w') = queue s @ [new]
       \<and> effects w' = effects w @
            [StorageSet (keyFor t)
               \<lparr>saved_queue = Some (queue s @ [new]), saved_paused = Some (paused s)\<rparr>,
             TabsSendMessage t (QUEUE_UPDATED (queue s @ [new]) (paused s)),
             SendResponse (Ok_id (randomId a 8))]
            @ (if \<not> paused s \<and> \<not> pageBusy s \<and> \<not> sending s
               then [TabsSendMessage t
                       (SEND_TEXT (item_text (hd (queue s @ [new])))
                          (item_id (hd (queue s @ [new]))))]
               else [])
       \<and> (nullish x \<or> (\<exists>str. x = JStr str \<and> list_all is_js_space str) \<longrightarrow>
            item_text new = [])
       \<and> length (randomId a 8) = 16
       \<and> (randomId a 8 = randomId b 8 \<longleftrightarrow> (\<forall>i < 8. a i = b i))
       \<and> (distinct (map item_id (queue s))
          \<and> (\<forall>it \<in> set (queue s). \<exists>c. item_id it = randomId c 8 \<and> (\<exists>i < 8. a i \<noteq> c i)) \<longrightarrow>
            randomId a 8 \<notin> item_id ` set (queue s)
          \<and> distinct (map item_id (queue (ctx t w'))))"
proof -
  have "nullish x \<Longrightarrow> item_text new = []"
    by (simp add: new_def nullish_coalesce_def trim_def)
  moreover have "item_text new = []" if "x = JStr str" and "list_all is_js_space str" for str
    using that trim_all_space [of str]
    by (cases "str = []") (simp_all add: new_def nullish_coalesce_def)
  moreover have q: "queue (ctx t w') = queue s @ [new]"
    using assms(4) unfolding s_def w'_def new_def
    by (simp add: onMessage_def getState_eq Let_def ctx_maybeSendNext)
  moreover have "effects w' = effects w @
            [StorageSet (keyFor t)
               \<lparr>saved_queue = Some (queue s @ [new]), saved_paused = Some (paused s)\<rparr>,
             TabsSendMessage t (QUEUE_UPDATED (queue s @ [new]) (paused s)),
             SendResponse (Ok_id (randomId a 8))]
            @ (if \<not> paused s \<and> \<not> pageBusy s \<and> \<not> sending s
               then [TabsSendMessage t
                       (SEND_TEXT (item_text (hd (queue s @ [new])))
                          (item_id (hd (queue s @ [new]))))]
               else [])"
    using assms(4) unfolding s_def w'_def new_def
    by (simp add: onMessage_def getState_eq Let_def effects_maybeSendNext)
  moreover have "length (randomId a 8) = 16"
    by (simp add: length_randomId)
  moreover have "randomId a 8 = randomId b 8 \<longleftrightarrow> (\<forall>i < 8. a i = b i)"
    by (rule randomId_inj)
  moreover have "randomId a 8 \<notin> item_id ` set (queue s)
      \<and> distinct (map item_id (queue (ctx t w')))"
    if dist: "distinct (map item_id (queue s))"
      and other: "\<forall>it \<in> set (queue s). \<exists>c. item_id it = randomId c 8 \<and> (\<exists>i < 8. a i \<noteq> c i)"
  proof -
    have fresh: "randomId a 8 \<notin> item_id ` set (queue s)"
    proof
      assume "randomId a 8 \<in> item_id ` set (queue s)"
      then obtain it where it: "it \<in> set (queue s)" "item_id it = randomId a 8"
        by auto
      with other obtain c where "item_id it = randomId c 8" "\<exists>i < 8. a i \<noteq> c i"
        by blast
      with it(2) show False
        by (auto simp add: randomId_inj)
    qed
    with dist q show ?thesis
      by (simp add: new_def)
  qed
  ultimately show ?thesis by blast
qed


theorem enqueue_never_rejects_witness:
  "(7::int) \<noteq> 0
   \<and> queue (ctx 7 (onMessage (QUEUE_ADD Undefined) (Some 7) bytes_a True flying_xy))
       = [item_x, item_y, \<lparr>item_id = randomId bytes_a 8, item_text = []\<rparr>]
   \<and> queue (ctx 7 (onMessage (QUEUE_ADD (JStr (lit ''   ''))) (Some 7) bytes_a True flying_xy))
       = [item_x, item_y, \<lparr>item_id = randomId bytes_a 8, item_text = []\<rparr>]
   \<and> last (effects (onMessage (QUEUE_ADD Undefined) (Some 7) bytes_a True flying_xy))
       = SendResponse (Ok_id (randomId bytes_a 8))
   \<and> randomId bytes_a 8 \<notin> item_id ` set (queue (ctx 7 once_b))
   \<and> distinct (map item_id
        (queue (ctx 7 (onMessage (QUEUE_ADD Undefined) (Some 7) bytes_a True once_b))))"
proof -
  have sp: "list_all is_js_space (lit ''   '')"
    by (simp add: lit_def is_js_space_def)
  have ctx: "ctx 7 flying_xy
      = \<lparr>queue = [item_x, item_y], paused = False, pageBusy = True, sending = True\<rparr>"
    by (simp add: flying_xy_def)
  have t: "(7::int) \<noteq> 0" by simp
  have b: "queue (ctx 7 once_b) = [\<lparr>item_id = randomId bytes_b 8, item_text = lit ''x''\<rparr>]"
    by (simp add: once_b_def onMessage_def getState_eq Let_def ctx_maybeSendNext ctx_initial
        nullish_coalesce_def trim_def lit_def is_js_space_def)
  have "bytes_a 0 \<noteq> bytes_b 0"
    by (simp add: bytes_a_def bytes_b_def)
  then have "\<exists>i < 8. bytes_a i \<noteq> bytes_b i"
    by (metis zero_less_numeral)
  with b have hyp: "distinct (map item_id (queue (ctx 7 once_b)))
      \<and> (\<forall>it \<in> set (queue (ctx 7 once_b)).
            \<exists>c. item_id it = randomId c 8 \<and> (\<exists>i < 8. bytes_a i \<noteq> c i))"
    by auto
  from enqueue_never_rejects
      [where t = 7 and w = once_b and x = Undefined and a = bytes_a and d = True
         and b = bytes_b, OF t] hyp
  have fresh: "randomId bytes_a 8 \<notin> item_id ` set (queue (ctx 7 once_b))
      \<and> distinct (map item_id
          (queue (ctx 7 (onMessage (QUEUE_ADD Undefined) (Some 7) bytes_a True once_b))))"
    by blast
  show ?thesis
    using enqueue_never_rejects
        [where t = 7 and w = flying_xy and x = Undefined and a = bytes_a and d = True
           and b = bytes_b, OF t]
      enqueue_never_rejects
        [where t = 7 and w = flying_xy and x = "JStr (lit ''   '')" and a = bytes_a
           and d = True and b = bytes_b, OF t]
      sp fresh
    by (simp add: ctx del: handle.simps)
qed

text \<open>
  The claim as stated fails in the word fresh: when the draw repeats the draw of a queued
  item, the id acknowledged is one the queue already holds.
\<close>

theorem acknowledged_id_queued_counterexample:
  "map item_id (queue (ctx 7 once_a)) = [randomId bytes_a 8]
   \<and> last (effects (onMessage (QUEUE_ADD Undefined) (Some 7) bytes_a True once_a))
       = SendResponse (Ok_id (randomId bytes_a 8))
   \<and> map item_id (queue (ctx 7 (onMessage (QUEUE_ADD Undefined) (Some 7) bytes_a True once_a)))
       = [randomId bytes_a 8, randomId bytes_a 8]"
  by (simp add: once_a_def onMessage_def getState_eq Let_def ctx_maybeSendNext
      effects_maybeSendNext ctx_initial nullish_coalesce_def)

section \<open>Editing an item\<close>

lemma findIndex_ge: "- 1 \<le> findIndex P xs"
  by (induction xs) (auto simp: Let_def)

lemma findIndex_none: "findIndex P xs = - 1 \<longleftrightarrow> (\<forall>x \<in> set xs. \<not> P x)"
proof (induction xs)
  case Nil
  show ?case by simp
next
  case (Cons x xs)
  with findIndex_ge [of P xs] show ?case by (auto simp: Let_def)
qed

lemma findIndex_some:
  "findIndex P xs \<noteq> - 1 \<Longrightarrow>
     nat (findIndex P xs) < length xs \<and> P (xs ! nat (findIndex P xs))
     \<and> (\<forall>j < nat (findIndex P xs). \<not> P (xs ! j))"
proof (induction xs)
  case Nil
  then show ?case by simp
next
  case (Cons x xs)
  show ?case
  proof (cases "P x")
    case True
    then show ?thesis by simp
  next
    case False
    with Cons.prems have ne: "findIndex P xs \<noteq> - 1" by (auto simp: Let_def)
    with findIndex_ge [of P xs] have ge: "0 \<le> findIndex P xs" by linarith
    from Cons.IH [OF ne] False ne ge show ?thesis
      by (auto simp: Let_def nat_add_distrib less_Suc_eq_0_disj)
  qed
qed

text \<open>
  Claim C8. When some item has the id given to \<open>QUEUE_UPDATE\<close>, the first such item gets
  the new (trimmed) text and keeps its id and its place, no other item changes, the queue
  is stored and broadcast and the answer is \<open>{ ok: true }\<close>. When no item has it, the
  answer is \<open>not_found\<close> and the context and the storage are unchanged, with no other
  call made.
\<close>

theorem edit_in_place:
  fixes w t i x a d
  defines "s \<equiv> ctx t w" and "w' \<equiv> handle (QUEUE_UPDATE i x) t a d w"
      and "ident \<equiv> js_String (logical_or i (JStr []))"
      and "txt \<equiv> trim (js_String (logical_or x (JStr [])))"
  shows "(ident \<in> item_id ` set (queue s) \<longrightarrow>
            (\<exists>k < length (queue s).
                item_id (queue s ! k) = ident
              \<and> (\<forall>j < k. item_id (queue s ! j) \<noteq> ident)
              \<and> queue (ctx t w') = (queue s)[k := \<lparr>item_id = ident, item_text = txt\<rparr>])
            \<and> map item_id (queue (ctx t w')) = map item_id (queue s)
            \<and> ctx t w' = s\<lparr>queue := queue (ctx t w')\<rparr>
            \<and> storage w' (keyFor t) =
                 Some \<lparr>saved_queue = Some (queue (ctx t w')), saved_paused = Some (paused s)\<rparr>
            \<and> effects w' = effects w @
                 [StorageSet (keyFor t)
                    \<lparr>saved_queue = Some (queue (ctx t w')), saved_paused = Some (paused s)\<rparr>,
                  TabsSendMessage t (QUEUE_UPDATED (queue (ctx t w')) (paused s)),
                  SendResponse Ok])
       \<and> (ident \<notin> item_id ` set (queue s) \<longrightarrow>
            ctx t w' = s \<and> storage w' = storage w
            \<and> effects w' = effects w @ [SendResponse (Not_ok (lit ''not_found''))])"
proof -
  let ?P = "\<lambda>it. item_id it = ident"
  let ?idx = "findIndex ?P (queue s)"
  have absent: "?idx = - 1 \<longleftrightarrow> ident \<notin> item_id ` set (queue s)"
    by (auto simp: findIndex_none)
  show ?thesis
  proof (cases "?idx = - 1")
    case True
    with absent show ?thesis
      unfolding s_def w'_def ident_def txt_def
      by (simp add: getState_eq Let_def)
  next
    case False
    from findIndex_some [OF False]
    have k: "nat ?idx < length (queue s)" "item_id (queue s ! nat ?idx) = ident"
      "\<forall>j < nat ?idx. item_id (queue s ! j) \<noteq> ident"
      by auto
    have upd: "(queue s ! nat ?idx)\<lparr>item_text := txt\<rparr> = \<lparr>item_id = ident, item_text = txt\<rparr>"
      using k(2) by (cases "queue s ! nat ?idx") simp
    have q: "queue (ctx t w') = (queue s)[nat ?idx := \<lparr>item_id = ident, item_text = txt\<rparr>]"
      using False upd unfolding s_def w'_def ident_def txt_def
      by (simp add: getState_eq Let_def)
    have ids: "map item_id (queue (ctx t w')) = map item_id (queue s)"
      unfolding q using k(1,2) by (simp add: map_update list_update_same_conv)
    have rest: "ctx t w' = s\<lparr>queue := queue (ctx t w')\<rparr>
        \<and> storage w' (keyFor t) =
             Some \<lparr>saved_queue = Some (queue (ctx t w')), saved_paused = Some (paused s)\<rparr>
        \<and> effects w' = effects w @
             [StorageSet (keyFor t)
                \<lparr>saved_queue = Some (queue (ctx t w')), saved_paused = Some (paused s)\<rparr>,
              TabsSendMessage t (QUEUE_UPDATED (queue (ctx t w')) (paused s)),
              SendResponse Ok]"
      using False unfolding s_def w'_def ident_def txt_def
      by (simp add: getState_eq Let_def)
    from False absent k q ids rest show ?thesis by blast
  qed
qed

theorem edit_in_place_witness:
  "queue (ctx 7 (handle (QUEUE_UPDATE (JStr (lit ''2c3d'')) (JStr (lit '' again ''))) 7
      bytes_a True idle_xy))
     = [item_x, \<lparr>item_id = lit ''2c3d'', item_text = lit ''again''\<rparr>]
   \<and> effects (handle (QUEUE_UPDATE (JStr (lit ''ffff'')) (JStr (lit '' again ''))) 7
      bytes_a True idle_xy)
     = [SendResponse (Not_ok (lit ''not_found''))]
   \<and> ctx 7 (handle (QUEUE_UPDATE (JStr (lit ''ffff'')) (JStr (lit '' again ''))) 7
      bytes_a True idle_xy)
     = ctx 7 idle_xy"
  using edit_in_place
      [where t = 7 and w = idle_xy and i = "JStr (lit ''2c3d'')" and x = "JStr (lit '' again '')"
         and a = bytes_a and d = True]
    edit_in_place
      [where t = 7 and w = idle_xy and i = "JStr (lit ''ffff'')" and x = "JStr (lit '' again '')"
         and a = bytes_a and d = True]
  by (simp add: getState_eq Let_def idle_xy_def item_x_def item_y_def lit_def logical_or_def
      trim_def is_js_space_def)

end
